theory Spec2Isabelle
  imports Main "HOL-Library.Sublist"
begin

section \<open>Values crossing the interface of \<^verbatim>\<open>gusc::Threads::Thread\<close>\<close>

text \<open>
  Every misuse of the class is reported by throwing \<^verbatim>\<open>std::runtime_error\<close>; the
  message tells the cases apart:
  \<^item> \<open>AlreadyStarted\<close>: "Thread already started" (\<^verbatim>\<open>start\<close>);
  \<^item> \<open>NotStarted\<close>: "Thread has not been started" (\<^verbatim>\<open>stop\<close>) and
    "Can not place a blocking message if the thread is not started" (\<^verbatim>\<open>sendSync\<close>);
  \<^item> \<open>NotAcceptingMessages\<close>: "Thread is not excepting any messages, the thread has
    been signaled for stopping" (every \<^verbatim>\<open>send\<close> variant).

  \<open>Raised e\<close> is an exception \<open>e\<close> thrown by a submitted callable that leaves the
  function, and \<open>Terminate\<close> is a call of \<^verbatim>\<open>std::terminate\<close> (the destructor of a
  joinable \<^verbatim>\<open>std::thread\<close>).
\<close>

datatype failure = AlreadyStarted | NotStarted | NotAcceptingMessages | Raised string | Terminate

text \<open>
  A callable is opaque code. The model keeps what the worker can observe of one
  invocation: that it ran (its \<open>label\<close> is written to the log of the worker) and how it
  ended, by returning a value or by throwing. A callable of a \<^verbatim>\<open>void\<close> message returns
  a value that is dropped. Callables that call back into the worker are outside the
  model.
\<close>

datatype outcome = Returns int | Raises string

datatype callable = Callable (label: nat) (behaviour: outcome)

text \<open>The template argument \<^verbatim>\<open>TReturn\<close> selects the body of \<^verbatim>\<open>actualCall\<close>.\<close>

datatype treturn = TVoid | TValue

text \<open>
  The shared state behind a \<^verbatim>\<open>std::promise\<close>/\<^verbatim>\<open>std::future\<close> pair. A promise that is
  destroyed before it is satisfied stores \<^verbatim>\<open>broken_promise\<close>.
\<close>

datatype shared_state = Pending | HasValue int | HasVoid | HasException string | BrokenPromise

text \<open>
  \<^verbatim>\<open>Message\<close> and its two subclasses. The promise of a
  \<^verbatim>\<open>CallableMessageWithPromise\<close> is the index of its shared state in the store
  \<open>promises\<close> of the worker.
\<close>

datatype message =
    CallableMessage callable
  | CallableMessageWithPromise treturn callable nat

text \<open>
  \<^verbatim>\<open>DelayedMessageWrapper\<close>. It is created by \<^verbatim>\<open>std::make_shared\<close>; \<open>addr\<close> is the
  address of the object, which is the value the owning \<^verbatim>\<open>std::shared_ptr\<close> compares by.
  Times are readings of \<^verbatim>\<open>std::chrono::steady_clock\<close> in ticks.
\<close>

record delayed_message_wrapper =
  addr :: nat
  isCancelled :: bool
  time :: int
  message :: "message option"

text \<open>
  \<^verbatim>\<open>std::thread\<close>: \<^verbatim>\<open>get_id\<close> of a thread that has been joined is the default id,
  which is the id of no thread (\<open>None\<close>).
\<close>

datatype std_thread = StdThread (tid: nat) (joinable: bool)

definition get_id :: "std_thread \<Rightarrow> nat option" where
  "get_id t = (if joinable t then Some (tid t) else None)"

datatype kind = PlainThread | ThisThread

text \<open>
  The object. The first six fields are the data members of \<^verbatim>\<open>Thread\<close> (with the dynamic
  type); the mutex and the condition variable have no content. The last four fields are
  the surroundings of the object:
  \<^item> \<open>inLoop\<close>: some thread is inside \<^verbatim>\<open>runLoop\<close>;
  \<^item> \<open>terminated\<close>: \<^verbatim>\<open>std::terminate\<close> has been called;
  \<^item> \<open>promises\<close>: the store of shared states;
  \<^item> \<open>executed\<close>: the labels of the callables invoked so far, in order.
\<close>

record worker =
  kind :: kind
  isRunning :: bool
  isAcceptingMessages :: bool
  messageQueue :: "message list"
  delayedQueue :: "delayed_message_wrapper list"
  thread :: "std_thread option"
  inLoop :: bool
  terminated :: bool
  promises :: "shared_state list"
  executed :: "nat list"

definition Thread_init :: worker where
  "Thread_init =
     \<lparr>kind = PlainThread, isRunning = False, isAcceptingMessages = True,
      messageQueue = [], delayedQueue = [], thread = None,
      inLoop = False, terminated = False, promises = [], executed = []\<rparr>"

definition ThisThread_init :: worker where
  "ThisThread_init = Thread_init\<lparr>kind := ThisThread, isRunning := True\<rparr>"

section \<open>Accessors\<close>

definition getIsRunning :: "worker \<Rightarrow> bool" where
  "getIsRunning s = isRunning s"

definition setIsRunning :: "bool \<Rightarrow> worker \<Rightarrow> worker" where
  "setIsRunning newIsRunning s = s\<lparr>isRunning := newIsRunning\<rparr>"

definition getIsAcceptingMessages :: "worker \<Rightarrow> bool" where
  "getIsAcceptingMessages s = isAcceptingMessages s"

definition setIsAcceptingMessages :: "bool \<Rightarrow> worker \<Rightarrow> worker" where
  "setIsAcceptingMessages newIsAcceptingMessages s =
     s\<lparr>isAcceptingMessages := newIsAcceptingMessages\<rparr>"

text \<open>\<open>caller\<close> is \<^verbatim>\<open>std::this_thread::get_id()\<close> of the thread that makes the call.\<close>

definition getId :: "nat \<Rightarrow> worker \<Rightarrow> nat option" where
  "getId caller s = (case thread s of Some t \<Rightarrow> get_id t | None \<Rightarrow> Some caller)"

definition getIsSameThread :: "nat \<Rightarrow> worker \<Rightarrow> bool" where
  "getIsSameThread caller s = (getId caller s = Some caller)"

section \<open>Messages\<close>

definition invoke :: "callable \<Rightarrow> worker \<Rightarrow> worker" where
  "invoke c s = s\<lparr>executed := executed s @ [label c]\<rparr>"

text \<open>
  \<^verbatim>\<open>set_value\<close> and \<^verbatim>\<open>set_exception\<close> store into a shared state that is still pending
  and throw \<^verbatim>\<open>std::future_error\<close> otherwise; the boolean is False when they throw.
\<close>

definition set_state :: "nat \<Rightarrow> shared_state \<Rightarrow> worker \<Rightarrow> bool \<times> worker" where
  "set_state p v s =
     (if p < length (promises s) \<and> promises s ! p = Pending
      then (True, s\<lparr>promises := (promises s)[p := v]\<rparr>)
      else (False, s))"

text \<open>
  \<^verbatim>\<open>actualCall<TR>\<close> wraps the invocation and \<^verbatim>\<open>set_value\<close> in a \<^verbatim>\<open>try\<close>, and
  \<^verbatim>\<open>set_exception\<close> in a second one. \<^verbatim>\<open>actualCall<void>\<close> has no \<^verbatim>\<open>try\<close>. The first
  component of the result is the exception that leaves the function, if any.
\<close>

fun actualCall :: "treturn \<Rightarrow> callable \<Rightarrow> nat \<Rightarrow> worker \<Rightarrow> string option \<times> worker" where
  "actualCall TValue c p s =
     (case behaviour c of
        Returns v \<Rightarrow>
          (case set_state p (HasValue v) (invoke c s) of
             (True, s1) \<Rightarrow> (None, s1)
           | (False, s1) \<Rightarrow> (None, snd (set_state p (HasException ''future_error'') s1)))
      | Raises e \<Rightarrow> (None, snd (set_state p (HasException e) (invoke c s))))"
| "actualCall TVoid c p s =
     (case behaviour c of
        Returns v \<Rightarrow>
          (case set_state p HasVoid (invoke c s) of
             (True, s1) \<Rightarrow> (None, s1)
           | (False, s1) \<Rightarrow> (Some ''future_error'', s1))
      | Raises e \<Rightarrow> (Some e, invoke c s))"

fun call :: "message \<Rightarrow> worker \<Rightarrow> string option \<times> worker" where
  "call (CallableMessage c) s = (None, invoke c s)"
| "call (CallableMessageWithPromise tr c p) s = actualCall tr c p s"

text \<open>
  The destructor of a message, run when the owning \<^verbatim>\<open>std::unique_ptr\<close> goes out of
  scope: the promise of a message that is still pending becomes broken.
\<close>

fun release :: "message \<Rightarrow> worker \<Rightarrow> worker" where
  "release (CallableMessage c) s = s"
| "release (CallableMessageWithPromise tr c p) s = snd (set_state p BrokenPromise s)"

section \<open>The delayed wrapper and its handle\<close>

definition getIsCancelled :: "delayed_message_wrapper \<Rightarrow> bool" where
  "getIsCancelled w = isCancelled w"

definition getTime :: "delayed_message_wrapper \<Rightarrow> int" where
  "getTime w = time w"

text \<open>\<^verbatim>\<open>getMessage\<close> returns the pointer it moves out, and the wrapper it leaves.\<close>

definition getMessage :: "delayed_message_wrapper \<Rightarrow> message option \<times> delayed_message_wrapper" where
  "getMessage w =
     (if getIsCancelled w then (None, w) else (message w, w\<lparr>message := None\<rparr>))"

text \<open>
  \<^verbatim>\<open>DelayedMessageWrapper::operator<\<close>, which compares the times of two wrappers.
\<close>

definition wrapper_less :: "delayed_message_wrapper \<Rightarrow> delayed_message_wrapper \<Rightarrow> bool" where
  "wrapper_less w other = (time w < getTime other)"

text \<open>
  \<^verbatim>\<open>delayedQueue\<close> is a \<^verbatim>\<open>std::multiset<std::shared_ptr<DelayedMessageWrapper>>\<close> with
  the default comparison \<^verbatim>\<open>std::less\<close> of the element type, and \<^verbatim>\<open>operator<\<close> of two
  \<^verbatim>\<open>std::shared_ptr\<close> compares the stored pointers. The list is the container in
  iteration order; \<^verbatim>\<open>emplace\<close> puts the new element behind the elements that are not
  greater.
\<close>

definition shared_ptr_less :: "delayed_message_wrapper \<Rightarrow> delayed_message_wrapper \<Rightarrow> bool" where
  "shared_ptr_less w other = (addr w < addr other)"

fun emplace :: "delayed_message_wrapper \<Rightarrow> delayed_message_wrapper list \<Rightarrow> delayed_message_wrapper list" where
  "emplace w [] = [w]"
| "emplace w (x # xs) = (if shared_ptr_less w x then w # x # xs else x # emplace w xs)"

text \<open>
  \<^verbatim>\<open>CancellableMessage\<close> holds a \<^verbatim>\<open>std::weak_ptr\<close> to the wrapper: \<open>None\<close> is the
  default-constructed handle, \<open>Some a\<close> refers to the wrapper allocated at \<open>a\<close>. The
  wrapper is owned by the delayed queue alone, so it exists exactly while it is an
  element of the queue. \<^verbatim>\<open>std::make_shared\<close> puts the wrapper and its control block
  into one allocation, which is released when the last weak pointer is gone: while a
  handle exists, no later wrapper is given its address.
\<close>

type_synonym cancellable_message = "nat option"

definition lock_weak :: "cancellable_message \<Rightarrow> worker \<Rightarrow> bool" where
  "lock_weak h s = (case h of None \<Rightarrow> False | Some a \<Rightarrow> list_ex (\<lambda>w. addr w = a) (delayedQueue s))"

definition cancel :: "cancellable_message \<Rightarrow> worker \<Rightarrow> worker" where
  "cancel h s =
     (case h of
        None \<Rightarrow> s
      | Some a \<Rightarrow>
          s\<lparr>delayedQueue :=
              map (\<lambda>w. if addr w = a then w\<lparr>isCancelled := True\<rparr> else w) (delayedQueue s)\<rparr>)"

definition isExecuted :: "cancellable_message \<Rightarrow> worker \<Rightarrow> bool" where
  "isExecuted h s = (\<not> lock_weak h s)"

section \<open>Lifecycle\<close>

text \<open>
  \<^verbatim>\<open>Thread::start\<close>; \<open>newId\<close> is the id of the thread it spawns. Assigning the new
  \<^verbatim>\<open>std::thread\<close> destroys the one held before, which terminates the program when that
  one is joinable.
\<close>

definition start :: "nat \<Rightarrow> worker \<Rightarrow> failure + worker" where
  "start newId s =
     (if \<not> getIsRunning s then
        (let s1 = setIsRunning True s;
             s2 = s1\<lparr>thread := Some (StdThread newId True), inLoop := True\<rparr>
         in case thread s1 of
              None \<Rightarrow> Inr s2
            | Some old \<Rightarrow> if joinable old then Inl Terminate else Inr s2)
      else Inl AlreadyStarted)"

definition stop :: "worker \<Rightarrow> failure + worker" where
  "stop s =
     (case thread s of
        Some t \<Rightarrow> Inr (setIsRunning False (setIsAcceptingMessages False s))
      | None \<Rightarrow> Inl NotStarted)"

text \<open>
  \<^verbatim>\<open>join\<close> waits for the spawned thread to leave \<^verbatim>\<open>runLoop\<close>; while the loop is still
  running the caller is blocked and nothing changes.
\<close>

definition join :: "worker \<Rightarrow> worker" where
  "join s =
     (case thread s of
        Some t \<Rightarrow>
          if joinable t \<and> \<not> inLoop s then s\<lparr>thread := Some (StdThread (tid t) False)\<rparr> else s
      | None \<Rightarrow> s)"

text \<open>
  The overrides of \<^verbatim>\<open>ThisThread\<close>: \<^verbatim>\<open>start\<close> enters \<^verbatim>\<open>runLoop\<close> on the calling thread,
  \<^verbatim>\<open>stop\<close> clears the two flags.
\<close>

definition ThisThread_start :: "worker \<Rightarrow> failure + worker" where
  "ThisThread_start s = Inr (s\<lparr>inLoop := True\<rparr>)"

definition ThisThread_stop :: "worker \<Rightarrow> failure + worker" where
  "ThisThread_stop s = Inr (setIsRunning False (setIsAcceptingMessages False s))"

section \<open>Submission\<close>

text \<open>
  In each \<^verbatim>\<open>send\<close> variant the flag is read first, and the \<^verbatim>\<open>std::lock_guard\<close> is
  taken inside the accepting branch. The function \<open>send_locked\<close> is the block that runs
  under the lock.
\<close>

definition send_locked :: "callable \<Rightarrow> worker \<Rightarrow> worker" where
  "send_locked newMessage s =
     s\<lparr>messageQueue := messageQueue s @ [CallableMessage newMessage]\<rparr>"

definition send :: "callable \<Rightarrow> worker \<Rightarrow> failure + worker" where
  "send newMessage s =
     (if getIsAcceptingMessages s then Inr (send_locked newMessage s)
      else Inl NotAcceptingMessages)"

text \<open>
  \<open>now\<close> is the reading of the clock inside \<^verbatim>\<open>sendDelayed\<close>, \<open>timeout\<close> the delay
  converted to ticks and \<open>a\<close> the address \<^verbatim>\<open>std::make_shared\<close> returns. A time point
  counts ticks in a signed 64-bit integer; a sum that leaves its range is taken as two's
  complement arithmetic gives it (the standard leaves it undefined).
\<close>

definition int64_wrap :: "int \<Rightarrow> int" where
  "int64_wrap x = (x + 2 ^ 63) mod 2 ^ 64 - 2 ^ 63"

definition sendDelayed_locked ::
  "callable \<Rightarrow> int \<Rightarrow> int \<Rightarrow> nat \<Rightarrow> worker \<Rightarrow> worker \<times> cancellable_message" where
  "sendDelayed_locked newMessage timeout now a s =
     (let time = int64_wrap (now + timeout);
          w = \<lparr>addr = a, isCancelled = False, time = time,
               message = Some (CallableMessage newMessage)\<rparr>
      in (s\<lparr>delayedQueue := emplace w (delayedQueue s)\<rparr>, Some a))"

definition sendDelayed ::
  "callable \<Rightarrow> int \<Rightarrow> int \<Rightarrow> nat \<Rightarrow> worker \<Rightarrow> failure + worker \<times> cancellable_message" where
  "sendDelayed newMessage timeout now a s =
     (if getIsAcceptingMessages s then Inr (sendDelayed_locked newMessage timeout now a s)
      else Inl NotAcceptingMessages)"

text \<open>
  \<^verbatim>\<open>sendAsync\<close> returns the future, which is the index of the shared state. On the same
  thread the message is called in place and destroyed at the end of the block, also
  when the call throws.
\<close>

definition sendAsync_locked :: "treturn \<Rightarrow> callable \<Rightarrow> nat \<Rightarrow> worker \<Rightarrow> worker" where
  "sendAsync_locked tr newMessage p s =
     s\<lparr>messageQueue := messageQueue s @ [CallableMessageWithPromise tr newMessage p]\<rparr>"

definition sendAsync :: "nat \<Rightarrow> treturn \<Rightarrow> callable \<Rightarrow> worker \<Rightarrow> (failure + nat) \<times> worker" where
  "sendAsync caller tr newMessage s =
     (if getIsAcceptingMessages s then
        (let p = length (promises s);
             s1 = s\<lparr>promises := promises s @ [Pending]\<rparr>
         in if getIsSameThread caller s1 then
              (let msg = CallableMessageWithPromise tr newMessage p
               in case call msg s1 of
                    (None, s2) \<Rightarrow> (Inr p, release msg s2)
                  | (Some e, s2) \<Rightarrow> (Inl (Raised e), release msg s2))
            else (Inr p, sendAsync_locked tr newMessage p s1))
      else (Inl NotAcceptingMessages, s))"

text \<open>
  \<^verbatim>\<open>sendSync\<close> is \<^verbatim>\<open>sendAsync\<close> behind the check of the running flag, followed by
  \<^verbatim>\<open>future.get()\<close>, which blocks (\<open>None\<close>) until the shared state is ready.
  \<^verbatim>\<open>sendWait\<close> is \<^verbatim>\<open>sendSync<void>\<close>.
\<close>

definition sendSync :: "nat \<Rightarrow> treturn \<Rightarrow> callable \<Rightarrow> worker \<Rightarrow> (failure + nat) \<times> worker" where
  "sendSync caller tr newMessage s =
     (if \<not> getIsRunning s then (Inl NotStarted, s)
      else sendAsync caller tr newMessage s)"

definition sendWait :: "nat \<Rightarrow> callable \<Rightarrow> worker \<Rightarrow> (failure + nat) \<times> worker" where
  "sendWait caller newMessage s = sendSync caller TVoid newMessage s"

definition future_ready :: "nat \<Rightarrow> worker \<Rightarrow> bool" where
  "future_ready p s = (p < length (promises s) \<and> promises s ! p \<noteq> Pending)"

definition future_get :: "nat \<Rightarrow> worker \<Rightarrow> (string + int option) option" where
  "future_get p s =
     (if p < length (promises s) then
        (case promises s ! p of
           Pending \<Rightarrow> None
         | HasValue v \<Rightarrow> Some (Inr (Some v))
         | HasVoid \<Rightarrow> Some (Inr None)
         | HasException e \<Rightarrow> Some (Inl e)
         | BrokenPromise \<Rightarrow> Some (Inl ''broken_promise''))
      else Some (Inl ''no_state''))"

section \<open>The run loop\<close>

text \<open>
  The scan of \<^verbatim>\<open>enqueueDelayedMessages\<close> over the delayed queue from \<^verbatim>\<open>begin()\<close>: a
  wrapper whose time is before \<open>timeNow\<close> is erased, after its message, unless it is
  null, has been put at the back of the main queue; the scan ends at the first other
  wrapper.
\<close>

fun enqueueDelayedMessages_scan ::
  "int \<Rightarrow> delayed_message_wrapper list \<Rightarrow> message list
     \<Rightarrow> message list \<times> delayed_message_wrapper list" where
  "enqueueDelayedMessages_scan timeNow [] mq = (mq, [])"
| "enqueueDelayedMessages_scan timeNow (w # ws) mq =
     (if getTime w < timeNow then
        (case fst (getMessage w) of
           Some ptr \<Rightarrow> enqueueDelayedMessages_scan timeNow ws (mq @ [ptr])
         | None \<Rightarrow> enqueueDelayedMessages_scan timeNow ws mq)
      else (mq, w # ws))"

definition enqueueDelayedMessages :: "int \<Rightarrow> worker \<Rightarrow> worker" where
  "enqueueDelayedMessages timeNow s =
     (case enqueueDelayedMessages_scan timeNow (delayedQueue s) (messageQueue s) of
        (mq, dq) \<Rightarrow> s\<lparr>messageQueue := mq, delayedQueue := dq\<rparr>)"

text \<open>
  One pass through the body of the \<^verbatim>\<open>while\<close> of \<^verbatim>\<open>runLoop\<close>, with \<open>timeNow\<close> the
  reading of the clock. With both queues empty of due work the thread waits, which
  changes nothing. The message is called outside the lock and destroyed at the end of
  the pass.
\<close>

definition runLoop_body :: "int \<Rightarrow> worker \<Rightarrow> string option \<times> worker" where
  "runLoop_body timeNow s =
     (let s1 = enqueueDelayedMessages timeNow s
      in case messageQueue s1 of
           next # rest \<Rightarrow>
             (case call next (s1\<lparr>messageQueue := rest\<rparr>) of
                (x, s2) \<Rightarrow> (x, release next s2))
         | [] \<Rightarrow> (None, s1))"

text \<open>
  \<^verbatim>\<open>runLeftovers\<close> calls the front message and then pops it, until the queue is empty.
  When a call throws, the message is still in the queue.
\<close>

fun runLeftovers_loop :: "message list \<Rightarrow> worker \<Rightarrow> string option \<times> worker" where
  "runLeftovers_loop [] s = (None, s\<lparr>messageQueue := []\<rparr>)"
| "runLeftovers_loop (m # ms) s =
     (case call m (s\<lparr>messageQueue := m # ms\<rparr>) of
        (Some e, s1) \<Rightarrow> (Some e, s1)
      | (None, s1) \<Rightarrow> runLeftovers_loop ms (release m (s1\<lparr>messageQueue := ms\<rparr>)))"

definition runLeftovers :: "worker \<Rightarrow> string option \<times> worker" where
  "runLeftovers s = runLeftovers_loop (messageQueue s) s"

text \<open>
  One turn of the thread that is inside \<^verbatim>\<open>runLoop\<close>: the test of the \<^verbatim>\<open>while\<close>, then
  either the body or \<^verbatim>\<open>runLeftovers\<close> and the return.
\<close>

definition runLoop_step :: "int \<Rightarrow> worker \<Rightarrow> string option \<times> worker" where
  "runLoop_step timeNow s =
     (if getIsRunning s then runLoop_body timeNow s
      else (case runLeftovers s of (x, s1) \<Rightarrow> (x, s1\<lparr>inLoop := False\<rparr>)))"

section \<open>Runs of the whole object\<close>

text \<open>
  The calls that the threads of a program make on one worker, in the order in which
  they take effect. The blocks under the mutex exclude one another; \<^verbatim>\<open>cancel\<close> is one
  atomic store to the flag of the wrapper and \<^verbatim>\<open>getMessage\<close> reads that flag once; a
  callable runs outside the lock and touches neither queue. So each call takes effect at
  one instant, except that the \<^verbatim>\<open>send\<close> variants read the accepting flag before they
  take the lock. \<open>Send\<close>, \<open>SendDelayed\<close>, \<open>SendAsync\<close> and \<open>SendSync\<close> are calls whose
  test and locked block take effect together. \<open>SendLocked\<close>, \<open>SendDelayedLocked\<close> and
  \<open>SendAsyncLocked\<close> are the locked blocks of calls whose tests passed at an earlier
  instant: the accepting flag is set when the object is constructed and is never set
  again, so at every instant a call can be between its test and the lock. For
  \<^verbatim>\<open>sendAsync\<close> the same-thread test has failed as well, which takes a spawned thread.

  A call that throws a usage error leaves the object as it was. An exception that
  leaves \<^verbatim>\<open>runLoop\<close> terminates the program when the loop runs on the spawned thread,
  and is thrown by \<^verbatim>\<open>start\<close> of a \<^verbatim>\<open>ThisThread\<close>.
\<close>

datatype event =
    Start nat
  | Stop
  | Join
  | Send callable
  | SendDelayed callable int int nat
  | SendAsync nat treturn callable
  | SendSync nat treturn callable
  | Cancel cancellable_message
  | LoopStep int
  | SendLocked callable
  | SendDelayedLocked callable int int nat
  | SendAsyncLocked treturn callable

definition start_virtual :: "nat \<Rightarrow> worker \<Rightarrow> failure + worker" where
  "start_virtual newId s =
     (case kind s of PlainThread \<Rightarrow> start newId s | ThisThread \<Rightarrow> ThisThread_start s)"

definition stop_virtual :: "worker \<Rightarrow> failure + worker" where
  "stop_virtual s = (case kind s of PlainThread \<Rightarrow> stop s | ThisThread \<Rightarrow> ThisThread_stop s)"

definition loop_left_by_exception :: "worker \<Rightarrow> worker" where
  "loop_left_by_exception s =
     (case kind s of
        PlainThread \<Rightarrow> s\<lparr>terminated := True\<rparr>
      | ThisThread \<Rightarrow> s\<lparr>inLoop := False\<rparr>)"

fun fire :: "event \<Rightarrow> worker \<Rightarrow> worker" where
  "fire (Start newId) s =
     (case start_virtual newId s of
        Inr s1 \<Rightarrow> s1
      | Inl f \<Rightarrow> if f = Terminate then s\<lparr>terminated := True\<rparr> else s)"
| "fire Stop s = (case stop_virtual s of Inr s1 \<Rightarrow> s1 | Inl f \<Rightarrow> s)"
| "fire Join s = join s"
| "fire (Send c) s = (case send c s of Inr s1 \<Rightarrow> s1 | Inl f \<Rightarrow> s)"
| "fire (SendDelayed c timeout now a) s =
     (case sendDelayed c timeout now a s of Inr (s1, h) \<Rightarrow> s1 | Inl f \<Rightarrow> s)"
| "fire (SendAsync caller tr c) s = snd (sendAsync caller tr c s)"
| "fire (SendSync caller tr c) s = snd (sendSync caller tr c s)"
| "fire (Cancel h) s = cancel h s"
| "fire (LoopStep timeNow) s =
     (if inLoop s then
        (case runLoop_step timeNow s of
           (None, s1) \<Rightarrow> s1
         | (Some e, s1) \<Rightarrow> loop_left_by_exception s1)
      else s)"
| "fire (SendLocked c) s = send_locked c s"
| "fire (SendDelayedLocked c timeout now a) s = fst (sendDelayed_locked c timeout now a s)"
| "fire (SendAsyncLocked tr c) s =
     (case thread s of
        None \<Rightarrow> s
      | Some t \<Rightarrow>
          sendAsync_locked tr c (length (promises s)) (s\<lparr>promises := promises s @ [Pending]\<rparr>))"

fun run :: "event list \<Rightarrow> worker \<Rightarrow> worker" where
  "run [] s = s"
| "run (e # es) s = (if terminated s then s else run es (fire e s))"

section \<open>Notions the properties are stated with\<close>

definition is_Start :: "event \<Rightarrow> bool" where
  "is_Start e = (case e of Start n \<Rightarrow> True | _ \<Rightarrow> False)"

text \<open>The \<^verbatim>\<open>std::thread\<close> held when \<^verbatim>\<open>start\<close> assigns a new one is still joinable.\<close>

definition old_thread_joinable :: "worker \<Rightarrow> bool" where
  "old_thread_joinable s = (case thread s of Some t \<Rightarrow> joinable t | None \<Rightarrow> False)"

fun msg_label :: "message \<Rightarrow> nat" where
  "msg_label (CallableMessage c) = label c"
| "msg_label (CallableMessageWithPromise tr c p) = label c"


text \<open>The wrapper holds the work labelled \<open>l\<close>; the event submits work labelled \<open>l\<close>.\<close>

definition carries :: "nat \<Rightarrow> delayed_message_wrapper \<Rightarrow> bool" where
  "carries l w = (case message w of Some m \<Rightarrow> msg_label m = l | None \<Rightarrow> False)"

definition submits :: "nat \<Rightarrow> event \<Rightarrow> bool" where
  "submits l e =
     (case e of
        Send c \<Rightarrow> label c = l
      | SendDelayed c timeout now a \<Rightarrow> label c = l
      | SendAsync caller tr c \<Rightarrow> label c = l
      | SendSync caller tr c \<Rightarrow> label c = l
      | SendLocked c \<Rightarrow> label c = l
      | SendDelayedLocked c timeout now a \<Rightarrow> label c = l
      | SendAsyncLocked tr c \<Rightarrow> label c = l
      | _ \<Rightarrow> False)"

text \<open>
  The work labelled \<open>l\<close> has not run, is not in the main queue, and every wrapper that
  holds it is cancelled.
\<close>

definition dead :: "nat \<Rightarrow> worker \<Rightarrow> bool" where
  "dead l s =
     (l \<notin> set (executed s) \<and> l \<notin> msg_label ` set (messageQueue s)
      \<and> (\<forall>w \<in> set (delayedQueue s). carries l w \<longrightarrow> isCancelled w))"

text \<open>
  The order in which work arrives at the back of the main queue: the work of a
  \<^verbatim>\<open>send\<close> arrives when its locked block takes effect, delayed work arrives when a pass
  of the running loop promotes it. \<open>promoted\<close> lists the messages such a pass moves.
\<close>

definition promoted :: "int \<Rightarrow> worker \<Rightarrow> message list" where
  "promoted timeNow s =
     List.map_filter (\<lambda>w. fst (getMessage w))
       (takeWhile (\<lambda>w. getTime w < timeNow) (delayedQueue s))"

definition arrived :: "event \<Rightarrow> worker \<Rightarrow> nat list" where
  "arrived e s =
     (case e of
        Send c \<Rightarrow> (case send c s of Inr s1 \<Rightarrow> [label c] | Inl f \<Rightarrow> [])
      | SendLocked c \<Rightarrow> [label c]
      | LoopStep timeNow \<Rightarrow>
          (if inLoop s \<and> getIsRunning s then map msg_label (promoted timeNow s) else [])
      | _ \<Rightarrow> [])"

fun arrivals :: "event list \<Rightarrow> worker \<Rightarrow> nat list" where
  "arrivals [] s = []"
| "arrivals (e # es) s = (if terminated s then [] else arrived e s @ arrivals es (fire e s))"






text \<open>
  The work throws; the event submits no \<^verbatim>\<open>void\<close> work that throws through
  \<^verbatim>\<open>sendAsync\<close>, \<^verbatim>\<open>sendSync\<close> or \<^verbatim>\<open>sendWait\<close>; the message is not such work.
\<close>

definition raises :: "callable \<Rightarrow> bool" where
  "raises c = (case behaviour c of Raises e \<Rightarrow> True | Returns v \<Rightarrow> False)"



text \<open>
  The promises of the queued messages are pairwise different and still pending, and no
  queued message is \<^verbatim>\<open>void\<close> work that throws; the delayed queue holds plain messages.
\<close>

fun promise_of :: "message \<Rightarrow> nat list" where
  "promise_of (CallableMessage c) = []"
| "promise_of (CallableMessageWithPromise tr c p) = [p]"

definition waiting :: "message list \<Rightarrow> nat list" where
  "waiting ms = concat (map promise_of ms)"



text \<open>
  The labels of the \<^verbatim>\<open>send\<close> calls of a list of events that reach the main queue, in
  order: with the accepting flag set, every \<open>Send\<close>; always, every \<open>SendLocked\<close>. \<open>T\<close>
  holds the labels of the work submitted by \<^verbatim>\<open>send\<close> and no other label: for the
  events, and for the delayed queue of a state.
\<close>

fun sends_in :: "bool \<Rightarrow> event list \<Rightarrow> nat list" where
  "sends_in accepting [] = []"
| "sends_in accepting (e # es) =
     (case e of
        Send c \<Rightarrow> (if accepting then [label c] else [])
      | SendLocked c \<Rightarrow> [label c]
      | _ \<Rightarrow> []) @ sends_in accepting es"




text \<open>
  What \<^verbatim>\<open>future.get()\<close> yields when the shared state holds the result of the work: the
  value, the completion of \<^verbatim>\<open>void\<close> work, or the error the work raised.
\<close>

definition satisfied_with :: "treturn \<Rightarrow> callable \<Rightarrow> string + int option" where
  "satisfied_with tr c =
     (case behaviour c of
        Returns v \<Rightarrow> Inr (case tr of TVoid \<Rightarrow> None | TValue \<Rightarrow> Some v)
      | Raises e \<Rightarrow> Inl e)"

section \<open>What each operation leaves unchanged\<close>

lemmas accessor_defs =
  getIsRunning_def setIsRunning_def getIsAcceptingMessages_def setIsAcceptingMessages_def
  getIsCancelled_def getTime_def

lemma invoke_fields [simp]:
  "kind (invoke c s) = kind s"
  "isRunning (invoke c s) = isRunning s"
  "isAcceptingMessages (invoke c s) = isAcceptingMessages s"
  "messageQueue (invoke c s) = messageQueue s"
  "delayedQueue (invoke c s) = delayedQueue s"
  "thread (invoke c s) = thread s"
  "inLoop (invoke c s) = inLoop s"
  "terminated (invoke c s) = terminated s"
  "promises (invoke c s) = promises s"
  "executed (invoke c s) = executed s @ [label c]"
  by (simp_all add: invoke_def)

lemma set_state_fields [simp]:
  "kind (snd (set_state p v s)) = kind s"
  "isRunning (snd (set_state p v s)) = isRunning s"
  "isAcceptingMessages (snd (set_state p v s)) = isAcceptingMessages s"
  "messageQueue (snd (set_state p v s)) = messageQueue s"
  "delayedQueue (snd (set_state p v s)) = delayedQueue s"
  "thread (snd (set_state p v s)) = thread s"
  "inLoop (snd (set_state p v s)) = inLoop s"
  "terminated (snd (set_state p v s)) = terminated s"
  "executed (snd (set_state p v s)) = executed s"
  by (simp_all add: set_state_def)

lemma actualCall_fields [simp]:
  "kind (snd (actualCall tr c p s)) = kind s"
  "isRunning (snd (actualCall tr c p s)) = isRunning s"
  "isAcceptingMessages (snd (actualCall tr c p s)) = isAcceptingMessages s"
  "messageQueue (snd (actualCall tr c p s)) = messageQueue s"
  "delayedQueue (snd (actualCall tr c p s)) = delayedQueue s"
  "thread (snd (actualCall tr c p s)) = thread s"
  "inLoop (snd (actualCall tr c p s)) = inLoop s"
  "terminated (snd (actualCall tr c p s)) = terminated s"
  "executed (snd (actualCall tr c p s)) = executed s @ [label c]"
  by (cases tr; cases "behaviour c"; simp add: set_state_def invoke_def)+

lemma call_fields [simp]:
  "kind (snd (call m s)) = kind s"
  "isRunning (snd (call m s)) = isRunning s"
  "isAcceptingMessages (snd (call m s)) = isAcceptingMessages s"
  "messageQueue (snd (call m s)) = messageQueue s"
  "delayedQueue (snd (call m s)) = delayedQueue s"
  "thread (snd (call m s)) = thread s"
  "inLoop (snd (call m s)) = inLoop s"
  "terminated (snd (call m s)) = terminated s"
  by (cases m; simp)+

lemma release_fields [simp]:
  "kind (release m s) = kind s"
  "isRunning (release m s) = isRunning s"
  "isAcceptingMessages (release m s) = isAcceptingMessages s"
  "messageQueue (release m s) = messageQueue s"
  "delayedQueue (release m s) = delayedQueue s"
  "thread (release m s) = thread s"
  "inLoop (release m s) = inLoop s"
  "terminated (release m s) = terminated s"
  "executed (release m s) = executed s"
  by (cases m; simp)+

lemma enqueueDelayedMessages_fields [simp]:
  "kind (enqueueDelayedMessages t s) = kind s"
  "isRunning (enqueueDelayedMessages t s) = isRunning s"
  "isAcceptingMessages (enqueueDelayedMessages t s) = isAcceptingMessages s"
  "thread (enqueueDelayedMessages t s) = thread s"
  "inLoop (enqueueDelayedMessages t s) = inLoop s"
  "terminated (enqueueDelayedMessages t s) = terminated s"
  "promises (enqueueDelayedMessages t s) = promises s"
  "executed (enqueueDelayedMessages t s) = executed s"
  by (simp_all add: enqueueDelayedMessages_def split: prod.splits)

lemma runLoop_body_fields [simp]:
  "kind (snd (runLoop_body t s)) = kind s"
  "isRunning (snd (runLoop_body t s)) = isRunning s"
  "isAcceptingMessages (snd (runLoop_body t s)) = isAcceptingMessages s"
  "thread (snd (runLoop_body t s)) = thread s"
  "inLoop (snd (runLoop_body t s)) = inLoop s"
  "terminated (snd (runLoop_body t s)) = terminated s"
  "delayedQueue (snd (runLoop_body t s)) = delayedQueue (enqueueDelayedMessages t s)"
  by (simp_all add: runLoop_body_def Let_def case_prod_unfold split: list.splits)

lemma runLeftovers_loop_fields:
  "kind (snd (runLeftovers_loop ms s)) = kind s \<and>
   isRunning (snd (runLeftovers_loop ms s)) = isRunning s \<and>
   isAcceptingMessages (snd (runLeftovers_loop ms s)) = isAcceptingMessages s \<and>
   thread (snd (runLeftovers_loop ms s)) = thread s \<and>
   inLoop (snd (runLeftovers_loop ms s)) = inLoop s \<and>
   terminated (snd (runLeftovers_loop ms s)) = terminated s \<and>
   delayedQueue (snd (runLeftovers_loop ms s)) = delayedQueue s"
proof (induction ms arbitrary: s)
  case Nil
  show ?case by simp
next
  case (Cons m ms)
  show ?case
  proof (cases "fst (call m (s\<lparr>messageQueue := m # ms\<rparr>))")
    case None
    then show ?thesis
      using Cons.IH [of "release m (snd (call m (s\<lparr>messageQueue := m # ms\<rparr>))\<lparr>messageQueue := ms\<rparr>)"]
      by (simp add: case_prod_unfold)
  next
    case (Some e)
    then show ?thesis by (simp add: case_prod_unfold)
  qed
qed

lemma runLeftovers_fields [simp]:
  "kind (snd (runLeftovers s)) = kind s"
  "isRunning (snd (runLeftovers s)) = isRunning s"
  "isAcceptingMessages (snd (runLeftovers s)) = isAcceptingMessages s"
  "thread (snd (runLeftovers s)) = thread s"
  "inLoop (snd (runLeftovers s)) = inLoop s"
  "terminated (snd (runLeftovers s)) = terminated s"
  "delayedQueue (snd (runLeftovers s)) = delayedQueue s"
  by (simp_all add: runLeftovers_def runLeftovers_loop_fields)

lemma runLoop_step_fields [simp]:
  "kind (snd (runLoop_step t s)) = kind s"
  "isRunning (snd (runLoop_step t s)) = isRunning s"
  "isAcceptingMessages (snd (runLoop_step t s)) = isAcceptingMessages s"
  "thread (snd (runLoop_step t s)) = thread s"
  "terminated (snd (runLoop_step t s)) = terminated s"
  by (simp_all add: runLoop_step_def case_prod_unfold)

lemma fire_LoopStep:
  "fire (LoopStep t) s =
     (if inLoop s then
        (if fst (runLoop_step t s) = None then snd (runLoop_step t s)
         else loop_left_by_exception (snd (runLoop_step t s)))
      else s)"
  by (auto simp: case_prod_unfold split: option.splits)

declare fire.simps(9) [simp del]

lemma sendAsync_fields [simp]:
  "kind (snd (sendAsync caller tr c s)) = kind s"
  "isRunning (snd (sendAsync caller tr c s)) = isRunning s"
  "isAcceptingMessages (snd (sendAsync caller tr c s)) = isAcceptingMessages s"
  "thread (snd (sendAsync caller tr c s)) = thread s"
  "inLoop (snd (sendAsync caller tr c s)) = inLoop s"
  "terminated (snd (sendAsync caller tr c s)) = terminated s"
  "delayedQueue (snd (sendAsync caller tr c s)) = delayedQueue s"
  by (simp_all add: sendAsync_def sendAsync_locked_def Let_def case_prod_unfold
        split: option.splits)

lemma sendSync_fields [simp]:
  "kind (snd (sendSync caller tr c s)) = kind s"
  "isRunning (snd (sendSync caller tr c s)) = isRunning s"
  "isAcceptingMessages (snd (sendSync caller tr c s)) = isAcceptingMessages s"
  "thread (snd (sendSync caller tr c s)) = thread s"
  "inLoop (snd (sendSync caller tr c s)) = inLoop s"
  "terminated (snd (sendSync caller tr c s)) = terminated s"
  "delayedQueue (snd (sendSync caller tr c s)) = delayedQueue s"
  by (simp_all add: sendSync_def)

text \<open>The accepting flag is never set again.\<close>

lemma fire_not_accepting:
  "\<not> isAcceptingMessages s \<Longrightarrow> \<not> isAcceptingMessages (fire e s)"
proof (cases e)
  case (LoopStep t)
  then show "\<not> isAcceptingMessages s \<Longrightarrow> \<not> isAcceptingMessages (fire e s)"
    by (simp only: fire_LoopStep) (simp add: loop_left_by_exception_def split: kind.splits)
qed (auto simp: start_virtual_def start_def ThisThread_start_def stop_virtual_def stop_def
       ThisThread_stop_def join_def send_def send_locked_def sendDelayed_def
       sendDelayed_locked_def sendAsync_locked_def cancel_def accessor_defs Let_def
       split: sum.splits option.splits kind.splits if_splits)

lemma run_not_accepting:
  "\<not> isAcceptingMessages s \<Longrightarrow> \<not> isAcceptingMessages (run evs s)"
  by (induction evs arbitrary: s) (auto simp: fire_not_accepting)

section \<open>What each operation does to the queues and the log\<close>

lemma enqueueDelayedMessages_scan_eq:
  "enqueueDelayedMessages_scan timeNow dq mq =
     (mq @ List.map_filter (\<lambda>w. if isCancelled w then None else message w)
             (takeWhile (\<lambda>w. time w < timeNow) dq),
      dropWhile (\<lambda>w. time w < timeNow) dq)"
  by (induction dq arbitrary: mq)
     (auto simp: getMessage_def accessor_defs List.map_filter_simps split: option.splits)


lemma call_executed [simp]: "executed (snd (call m s)) = executed s @ [msg_label m]"
  by (cases m) simp_all

lemma set_emplace [simp]: "set (emplace w xs) = insert w (set xs)"
  by (induction xs) auto

lemma enqueueDelayedMessages_queues:
  "messageQueue (enqueueDelayedMessages t s) =
     messageQueue s @ List.map_filter (\<lambda>w. if isCancelled w then None else message w)
         (takeWhile (\<lambda>w. time w < t) (delayedQueue s))"
  "delayedQueue (enqueueDelayedMessages t s) = dropWhile (\<lambda>w. time w < t) (delayedQueue s)"
  by (simp_all add: enqueueDelayedMessages_def enqueueDelayedMessages_scan_eq)

lemma promoted_from_live_wrapper:
  "m \<in> set (List.map_filter (\<lambda>w. if isCancelled w then None else message w) ws)
   \<Longrightarrow> \<exists>w \<in> set ws. \<not> isCancelled w \<and> message w = Some m"
  by (auto simp: List.map_filter_def split: if_splits)

lemma runLoop_body_queues:
  "executed (snd (runLoop_body t s)) =
     executed s @ map msg_label (take 1 (messageQueue (enqueueDelayedMessages t s)))"
  "messageQueue (snd (runLoop_body t s)) = drop 1 (messageQueue (enqueueDelayedMessages t s))"
  by (simp_all add: runLoop_body_def Let_def case_prod_unfold split: list.splits)

lemma runLeftovers_loop_sets:
  "set (executed (snd (runLeftovers_loop ms s))) \<subseteq> set (executed s) \<union> msg_label ` set ms
   \<and> set (messageQueue (snd (runLeftovers_loop ms s))) \<subseteq> set ms"
proof (induction ms arbitrary: s)
  case Nil
  show ?case by simp
next
  case (Cons m ms)
  show ?case
  proof (cases "fst (call m (s\<lparr>messageQueue := m # ms\<rparr>))")
    case None
    then show ?thesis
      using Cons.IH [of "release m (snd (call m (s\<lparr>messageQueue := m # ms\<rparr>))\<lparr>messageQueue := ms\<rparr>)"]
      by (auto simp: case_prod_unfold)
  next
    case (Some e)
    then show ?thesis by (auto simp: case_prod_unfold)
  qed
qed



lemma runLoop_step_queues:
  "executed (snd (runLoop_step t s)) =
     (if isRunning s then executed (snd (runLoop_body t s)) else executed (snd (runLeftovers s)))"
  "messageQueue (snd (runLoop_step t s)) =
     (if isRunning s then messageQueue (snd (runLoop_body t s))
      else messageQueue (snd (runLeftovers s)))"
  "delayedQueue (snd (runLoop_step t s)) =
     (if isRunning s then delayedQueue (enqueueDelayedMessages t s) else delayedQueue s)"
  by (simp_all add: runLoop_step_def accessor_defs case_prod_unfold)

lemma loop_left_by_exception_fields [simp]:
  "executed (loop_left_by_exception s) = executed s"
  "messageQueue (loop_left_by_exception s) = messageQueue s"
  "delayedQueue (loop_left_by_exception s) = delayedQueue s"
  "isRunning (loop_left_by_exception s) = isRunning s"
  "isAcceptingMessages (loop_left_by_exception s) = isAcceptingMessages s"
  "kind (loop_left_by_exception s) = kind s"
  "thread (loop_left_by_exception s) = thread s"
  by (simp_all add: loop_left_by_exception_def split: kind.splits)

lemma fire_LoopStep_queues:
  "inLoop s \<Longrightarrow> executed (fire (LoopStep t) s) = executed (snd (runLoop_step t s))"
  "inLoop s \<Longrightarrow> messageQueue (fire (LoopStep t) s) = messageQueue (snd (runLoop_step t s))"
  "inLoop s \<Longrightarrow> delayedQueue (fire (LoopStep t) s) = delayedQueue (snd (runLoop_step t s))"
  "\<not> inLoop s \<Longrightarrow> fire (LoopStep t) s = s"
  by (simp_all add: fire_LoopStep)

lemma sendAsync_queues:
  "set (executed (snd (sendAsync caller tr c s))) \<subseteq> insert (label c) (set (executed s))"
  "msg_label ` set (messageQueue (snd (sendAsync caller tr c s)))
     \<subseteq> insert (label c) (msg_label ` set (messageQueue s))"
  by (auto simp: sendAsync_def sendAsync_locked_def Let_def case_prod_unfold
        split: option.splits)

section \<open>Evaluation of runs\<close>

lemmas op_defs =
  start_virtual_def start_def ThisThread_start_def stop_virtual_def stop_def
  ThisThread_stop_def join_def send_def send_locked_def sendDelayed_def
  sendDelayed_locked_def sendAsync_def sendAsync_locked_def sendSync_def sendWait_def
  cancel_def isExecuted_def lock_weak_def getId_def getIsSameThread_def get_id_def
  shared_ptr_less_def wrapper_less_def getMessage_def
  enqueueDelayedMessages_def runLoop_body_def runLeftovers_def runLoop_step_def
  loop_left_by_exception_def invoke_def set_state_def future_ready_def
  Thread_init_def ThisThread_init_def fire_LoopStep int64_wrap_def

section \<open>Order of the delayed queue\<close>

lemma sorted_emplace:
  "sorted (map addr xs) \<Longrightarrow> sorted (map addr (emplace w xs))"
  by (induction xs) (auto simp: shared_ptr_less_def)

lemma sorted_addr_dropWhile:
  "sorted (map addr xs) \<Longrightarrow> sorted (map addr (dropWhile P xs))"
  by (induction xs) auto

lemma addr_cancelled:
  "addr \<circ> (\<lambda>w. if addr w = a then w\<lparr>isCancelled := True\<rparr> else w) = addr"
  by (rule ext) simp

lemma fire_sorted_by_address:
  assumes "sorted (map addr (delayedQueue s))"
  shows "sorted (map addr (delayedQueue (fire e s)))"
proof (cases e)
  case (LoopStep t)
  show ?thesis
  proof (cases "inLoop s")
    case True
    with assms LoopStep show ?thesis
      by (simp add: fire_LoopStep_queues runLoop_step_queues enqueueDelayedMessages_queues
            sorted_addr_dropWhile)
  next
    case False
    with assms LoopStep show ?thesis by (simp add: fire_LoopStep_queues)
  qed
next
  case (Cancel h)
  with assms show ?thesis
    by (cases h) (simp_all add: cancel_def addr_cancelled)
next
  case (SendDelayed c timeout now a)
  with assms show ?thesis
    by (simp add: sendDelayed_def sendDelayed_locked_def sendAsync_locked_def sorted_emplace)
qed (use assms in \<open>auto simp: start_virtual_def start_def
       ThisThread_start_def stop_virtual_def stop_def
       ThisThread_stop_def join_def send_def send_locked_def sendDelayed_locked_def
       sendAsync_locked_def sorted_emplace accessor_defs Let_def
       split: sum.splits option.splits kind.splits if_splits\<close>)

text \<open>In every state of a run the delayed queue iterates in order of address.\<close>

lemma delayedQueue_sorted_by_address:
  "sorted (map addr (delayedQueue s)) \<Longrightarrow> sorted (map addr (delayedQueue (run evs s)))"
  by (induction evs arbitrary: s) (auto simp: fire_sorted_by_address)

text \<open>
  Claim C1 says that the delayed queue is at all times ordered by fire time, ties in
  insertion order, so that iterating it yields non-decreasing times in every state
  reached by calls of \<^verbatim>\<open>sendDelayed\<close> and passes of the loop.

  The container compares the shared pointers, that is the addresses (\<open>shared_ptr_less\<close>);
  \<open>wrapper_less\<close>, which compares times, is not used by it. After \<^verbatim>\<open>start\<close>, a
  \<^verbatim>\<open>sendDelayed\<close> with delay 100 whose wrapper is at address 4096 and a second one with
  delay 10 at address 8192, both at time 0, the queue iterates the times 100, 10; a pass
  of the loop at time 50 stops at the first wrapper and leaves the second, which is due,
  in the queue.
\<close>

theorem delayedQueue_iterates_by_address_not_time:
  "map time (delayedQueue (run [Start 7,
        SendDelayed (Callable 1 (Returns 0)) 100 0 4096,
        SendDelayed (Callable 2 (Returns 0)) 10 0 8192] Thread_init)) = [100, 10]
   \<and> map time (delayedQueue (run [Start 7,
        SendDelayed (Callable 1 (Returns 0)) 100 0 4096,
        SendDelayed (Callable 2 (Returns 0)) 10 0 8192,
        LoopStep 50] Thread_init)) = [100, 10]"
  by (simp add: op_defs accessor_defs)

section \<open>The promotion pass\<close>

lemma sorted_dropWhile_bound:
  "sorted (map f xs) \<Longrightarrow> x \<in> set (dropWhile (\<lambda>x. f x < (n::int)) xs) \<Longrightarrow> n \<le> f x"
  by (induction xs) (auto split: if_splits)

lemma sorted_takeWhile_map:
  "sorted (map f xs) \<Longrightarrow> sorted (map f (takeWhile P xs))"
  by (induction xs) (auto dest: set_takeWhileD)

text \<open>
  Claim C2 says that a pass promotes every delayed item whose time is at or before the
  current time, in ascending order of time, and that afterwards no item with time
  \<open>\<le> now\<close> remains. The comparison of the pass is strict: a wrapper whose time is 5
  stays in the delayed queue in a pass at time 5, and nothing is promoted.
\<close>

theorem enqueueDelayedMessages_keeps_item_due_now:
  "map time (delayedQueue (enqueueDelayedMessages 5
      (run [Start 7, SendDelayed (Callable 1 (Returns 0)) 5 0 4096] Thread_init))) = [5]
   \<and> messageQueue (enqueueDelayedMessages 5
      (run [Start 7, SendDelayed (Callable 1 (Returns 0)) 5 0 4096] Thread_init)) = []"
  by (simp add: op_defs accessor_defs)

text \<open>
  Claim C2 as amended. A pass removes from the front of the delayed queue, in iteration
  order, the wrappers up to the first whose time is not strictly before the current
  time, and appends the messages of those among them that are not cancelled to the back
  of the main queue, in that order; cancelled ones are dropped. When the queue iterates
  in non-decreasing order of time, the promoted wrappers are in ascending order of time
  and no wrapper with a time strictly before the current time remains.
\<close>

theorem enqueueDelayedMessages_promotes_due_prefix:
  "messageQueue (enqueueDelayedMessages timeNow s) =
     messageQueue s @
       List.map_filter (\<lambda>w. if isCancelled w then None else message w)
         (takeWhile (\<lambda>w. time w < timeNow) (delayedQueue s))
   \<and> delayedQueue (enqueueDelayedMessages timeNow s) =
       dropWhile (\<lambda>w. time w < timeNow) (delayedQueue s)
   \<and> (sorted (map time (delayedQueue s)) \<longrightarrow>
        sorted (map time (takeWhile (\<lambda>w. time w < timeNow) (delayedQueue s)))
        \<and> (\<forall>w \<in> set (delayedQueue (enqueueDelayedMessages timeNow s)). timeNow \<le> time w))"
  by (auto simp: enqueueDelayedMessages_def enqueueDelayedMessages_scan_eq
        sorted_takeWhile_map dest: sorted_dropWhile_bound)

theorem enqueueDelayedMessages_promotes_due_prefix_witness:
  "sorted (map time (delayedQueue (run
       [SendDelayed (Callable 1 (Returns 0)) 1 0 1, SendDelayed (Callable 2 (Returns 0)) 2 0 2,
        Cancel (Some 2), SendDelayed (Callable 3 (Returns 0)) 5 0 3,
        SendDelayed (Callable 4 (Returns 0)) 9 0 4] Thread_init)))
   \<and> messageQueue (enqueueDelayedMessages 5 (run
       [SendDelayed (Callable 1 (Returns 0)) 1 0 1, SendDelayed (Callable 2 (Returns 0)) 2 0 2,
        Cancel (Some 2), SendDelayed (Callable 3 (Returns 0)) 5 0 3,
        SendDelayed (Callable 4 (Returns 0)) 9 0 4] Thread_init))
       = [CallableMessage (Callable 1 (Returns 0))]
   \<and> map time (delayedQueue (enqueueDelayedMessages 5 (run
       [SendDelayed (Callable 1 (Returns 0)) 1 0 1, SendDelayed (Callable 2 (Returns 0)) 2 0 2,
        Cancel (Some 2), SendDelayed (Callable 3 (Returns 0)) 5 0 3,
        SendDelayed (Callable 4 (Returns 0)) 9 0 4] Thread_init))) = [5, 9]
   \<and> list_all (\<lambda>w. 5 \<le> time w) (delayedQueue (enqueueDelayedMessages 5 (run
       [SendDelayed (Callable 1 (Returns 0)) 1 0 1, SendDelayed (Callable 2 (Returns 0)) 2 0 2,
        Cancel (Some 2), SendDelayed (Callable 3 (Returns 0)) 5 0 3,
        SendDelayed (Callable 4 (Returns 0)) 9 0 4] Thread_init)))"
  using enqueueDelayedMessages_promotes_due_prefix [of 5 "run
       [SendDelayed (Callable 1 (Returns 0)) 1 0 1, SendDelayed (Callable 2 (Returns 0)) 2 0 2,
        Cancel (Some 2), SendDelayed (Callable 3 (Returns 0)) 5 0 3,
        SendDelayed (Callable 4 (Returns 0)) 9 0 4] Thread_init"]
  by (simp add: op_defs accessor_defs List.map_filter_simps)

section \<open>Errors raised by submitted work\<close>

lemma actualCall_value_captures: "fst (actualCall TValue c p s) = None"
  by (cases "behaviour c") (simp_all add: case_prod_unfold split: bool.splits)

text \<open>
  Claim C3 says that an error raised by work submitted through \<^verbatim>\<open>sendAsync\<close>,
  \<^verbatim>\<open>sendSync\<close> or \<^verbatim>\<open>sendWait\<close> is captured into the waitable handle and never reaches
  the loop of the worker, also for work that returns \<^verbatim>\<open>void\<close>.

  The body of \<^verbatim>\<open>actualCall\<close> for a value catches the error (\<open>actualCall_value_captures\<close>);
  the body for \<^verbatim>\<open>void\<close> does not. After \<^verbatim>\<open>start\<close> and a \<^verbatim>\<open>sendAsync<void>\<close> from
  another thread of work that throws, the next pass of the loop is left by that
  exception, the future does not hold the error, and the program is terminated.
\<close>

theorem actualCall_void_exception_leaves_runLoop:
  "fst (runLoop_step 0 (run [Start 7, SendAsync 1 TVoid (Callable 1 (Raises ''boom''))] Thread_init))
     = Some ''boom''
   \<and> future_get 0 (snd (runLoop_step 0
        (run [Start 7, SendAsync 1 TVoid (Callable 1 (Raises ''boom''))] Thread_init)))
     \<noteq> Some (Inl ''boom'')
   \<and> terminated (run [Start 7, SendAsync 1 TVoid (Callable 1 (Raises ''boom'')), LoopStep 0] Thread_init)"
  by (simp add: op_defs accessor_defs future_get_def)

section \<open>The cancellation handle\<close>

text \<open>
  Claim C4 says that after the handle of a delayed item is cancelled before its delay
  has elapsed, the work never runs and \<^verbatim>\<open>isExecuted\<close> returns false from then on.

  \<^verbatim>\<open>isExecuted\<close> is \<^verbatim>\<open>expired()\<close> of the weak pointer. After \<^verbatim>\<open>start\<close>, a
  \<^verbatim>\<open>sendDelayed\<close> with delay 50 at time 0 and \<^verbatim>\<open>cancel\<close>, it returns false; the pass
  of the loop at time 51 erases the cancelled wrapper, and then it returns true, although
  the work has not run.
\<close>

theorem isExecuted_true_after_cancelled_wrapper_erased:
  "\<not> isExecuted (Some 4096)
       (run [Start 7, SendDelayed (Callable 1 (Returns 0)) 50 0 4096, Cancel (Some 4096)] Thread_init)
   \<and> isExecuted (Some 4096)
       (run [Start 7, SendDelayed (Callable 1 (Returns 0)) 50 0 4096, Cancel (Some 4096),
             LoopStep 51] Thread_init)
   \<and> executed
       (run [Start 7, SendDelayed (Callable 1 (Returns 0)) 50 0 4096, Cancel (Some 4096),
             LoopStep 51] Thread_init) = []"
  by (simp add: op_defs accessor_defs)

section \<open>Submission after \<^verbatim>\<open>stop\<close> and before \<^verbatim>\<open>start\<close>\<close>

text \<open>
  Claim C5 says that every \<^verbatim>\<open>send\<close> variant called after \<^verbatim>\<open>stop\<close> fails with
  \<open>NotAcceptingMessages\<close>, and that \<^verbatim>\<open>sendSync\<close> and \<^verbatim>\<open>sendWait\<close> on a worker that
  was never started fail with \<open>NotStarted\<close>. \<^verbatim>\<open>sendSync\<close> tests the running flag
  first, and \<^verbatim>\<open>stop\<close> clears both flags: after \<^verbatim>\<open>start\<close> and \<^verbatim>\<open>stop\<close> it fails with
  \<open>NotStarted\<close>.
\<close>

theorem sendSync_after_stop_fails_NotStarted:
  "fst (sendSync 1 TValue (Callable 1 (Returns 42)) (run [Start 7, Stop] Thread_init)) = Inl NotStarted
   \<and> fst (sendSync 1 TValue (Callable 1 (Returns 42)) (run [Start 7, Stop] Thread_init))
       \<noteq> Inl NotAcceptingMessages"
  by (simp add: op_defs accessor_defs)

lemma stop_virtual_flags:
  "stop_virtual s = Inr s1 \<Longrightarrow> \<not> isAcceptingMessages s1 \<and> \<not> isRunning s1"
  by (auto simp: stop_virtual_def stop_def ThisThread_stop_def accessor_defs
        split: kind.splits option.splits)

lemma fire_not_running:
  "\<not> is_Start e \<Longrightarrow> \<not> isRunning s \<Longrightarrow> \<not> isRunning (fire e s)"
proof (cases e)
  case (LoopStep t)
  then show "\<not> isRunning s \<Longrightarrow> \<not> isRunning (fire e s)"
    by (simp only: fire_LoopStep) (simp add: loop_left_by_exception_def split: kind.splits)
qed (auto simp: is_Start_def stop_virtual_def stop_def
       ThisThread_stop_def join_def send_def send_locked_def sendDelayed_def
       sendDelayed_locked_def sendAsync_locked_def cancel_def accessor_defs Let_def
       split: sum.splits option.splits kind.splits if_splits)

lemma run_not_running:
  "list_all (\<lambda>e. \<not> is_Start e) evs \<Longrightarrow> \<not> isRunning s \<Longrightarrow> \<not> isRunning (run evs s)"
  by (induction evs arbitrary: s) (auto simp: fire_not_running)

text \<open>
  Claim C5 as amended. At any time after a \<^verbatim>\<open>stop\<close> that succeeded, \<^verbatim>\<open>send\<close>,
  \<^verbatim>\<open>sendDelayed\<close> and \<^verbatim>\<open>sendAsync\<close> fail with \<open>NotAcceptingMessages\<close>; \<^verbatim>\<open>sendSync\<close>
  and \<^verbatim>\<open>sendWait\<close> fail with \<open>NotStarted\<close> while the running flag is clear, as it is
  right after \<^verbatim>\<open>stop\<close>, and with \<open>NotAcceptingMessages\<close> once the worker has been
  started again. On a plain \<^verbatim>\<open>Thread\<close> on which \<^verbatim>\<open>start\<close> was never called,
  \<^verbatim>\<open>sendSync\<close> and \<^verbatim>\<open>sendWait\<close> fail with \<open>NotStarted\<close>.
\<close>

theorem send_failures_after_stop:
  "(stop_virtual s0 = Inr s1 \<and> s = run evs s1 \<longrightarrow>
      send c s = Inl NotAcceptingMessages
      \<and> sendDelayed c timeout now a s = Inl NotAcceptingMessages
      \<and> sendAsync caller tr c s = (Inl NotAcceptingMessages, s)
      \<and> sendSync caller tr c s =
          (Inl (if isRunning s then NotAcceptingMessages else NotStarted), s)
      \<and> sendWait caller c s =
          (Inl (if isRunning s then NotAcceptingMessages else NotStarted), s)
      \<and> sendSync caller tr c s1 = (Inl NotStarted, s1)
      \<and> sendWait caller c s1 = (Inl NotStarted, s1))
   \<and> (list_all (\<lambda>e. \<not> is_Start e) evs \<and> s = run evs Thread_init \<longrightarrow>
        sendSync caller tr c s = (Inl NotStarted, s)
        \<and> sendWait caller c s = (Inl NotStarted, s))"
proof (intro conjI impI)
  assume h: "stop_virtual s0 = Inr s1 \<and> s = run evs s1"
  then have f1: "\<not> isAcceptingMessages s1" and r1: "\<not> isRunning s1"
    using stop_virtual_flags by blast+
  from f1 h have f: "\<not> isAcceptingMessages s"
    by (simp add: run_not_accepting)
  show "send c s = Inl NotAcceptingMessages"
    using f by (simp add: send_def accessor_defs)
  show "sendDelayed c timeout now a s = Inl NotAcceptingMessages"
    using f by (simp add: sendDelayed_def accessor_defs)
  show "sendAsync caller tr c s = (Inl NotAcceptingMessages, s)"
    using f by (simp add: sendAsync_def accessor_defs)
  show "sendSync caller tr c s = (Inl (if isRunning s then NotAcceptingMessages else NotStarted), s)"
    using f by (simp add: sendSync_def sendAsync_def accessor_defs)
  show "sendWait caller c s = (Inl (if isRunning s then NotAcceptingMessages else NotStarted), s)"
    using f by (simp add: sendWait_def sendSync_def sendAsync_def accessor_defs)
  show "sendSync caller tr c s1 = (Inl NotStarted, s1)"
    using r1 by (simp add: sendSync_def accessor_defs)
  show "sendWait caller c s1 = (Inl NotStarted, s1)"
    using r1 by (simp add: sendWait_def sendSync_def accessor_defs)
next
  assume h: "list_all (\<lambda>e. \<not> is_Start e) evs \<and> s = run evs Thread_init"
  then have r: "\<not> isRunning s"
    using run_not_running [of evs Thread_init] by (simp add: Thread_init_def)
  show "sendSync caller tr c s = (Inl NotStarted, s)"
    using r by (simp add: sendSync_def accessor_defs)
  show "sendWait caller c s = (Inl NotStarted, s)"
    using r by (simp add: sendWait_def sendSync_def accessor_defs)
qed

theorem send_failures_after_stop_witness:
  "send (Callable 1 (Returns 0)) (run [Send (Callable 2 (Returns 0))] (run [Start 7, Stop] Thread_init))
     = Inl NotAcceptingMessages
   \<and> fst (sendSync 1 TValue (Callable 1 (Returns 0)) (run [Start 7, Stop] Thread_init)) = Inl NotStarted
   \<and> fst (sendSync 1 TValue (Callable 1 (Returns 0)) (run [Send (Callable 2 (Returns 0))] Thread_init))
       = Inl NotStarted"
  using send_failures_after_stop [of "run [Start 7] Thread_init" "run [Start 7, Stop] Thread_init"
      "run [Send (Callable 2 (Returns 0))] (run [Start 7, Stop] Thread_init)"
      "[Send (Callable 2 (Returns 0))]" "Callable 1 (Returns 0)" 0 0 0 1 TValue]
    send_failures_after_stop [of "run [Start 7] Thread_init" "run [Start 7, Stop] Thread_init"
      "run [Send (Callable 2 (Returns 0))] Thread_init"
      "[Send (Callable 2 (Returns 0))]" "Callable 1 (Returns 0)" 0 0 0 1 TValue]
  by (simp add: op_defs accessor_defs is_Start_def)

section \<open>\<^verbatim>\<open>start\<close> and \<^verbatim>\<open>stop\<close>\<close>

lemma start_stop_outcomes:
  "(start newId s = Inl AlreadyStarted) = isRunning s"
  "(start newId s = Inl Terminate) = (\<not> isRunning s \<and> old_thread_joinable s)"
  "(\<exists>s1. start newId s = Inr s1) = (\<not> isRunning s \<and> \<not> old_thread_joinable s)"
  "(stop s = Inl NotStarted) = (thread s = None)"
  "(\<exists>s1. stop s = Inr s1) = (thread s \<noteq> None)"
  by (auto simp: start_def stop_def old_thread_joinable_def accessor_defs Let_def
        split: option.splits)

text \<open>
  Claim C6 says that \<^verbatim>\<open>start\<close> fails with \<open>AlreadyStarted\<close> on a worker that is
  running or stopping, that \<^verbatim>\<open>stop\<close> fails with \<open>NotStarted\<close> on a worker that was
  never started, and that both succeed otherwise.

  The guard of \<^verbatim>\<open>start\<close> tests the running flag only, where \<^verbatim>\<open>stop\<close> tests the thread
  it holds. After \<^verbatim>\<open>start\<close> and \<^verbatim>\<open>stop\<close> the flag is clear and the thread is held and
  not joined: a second \<^verbatim>\<open>start\<close> passes the guard, and the assignment of the new
  \<^verbatim>\<open>std::thread\<close> destroys the joinable one, which calls \<^verbatim>\<open>std::terminate\<close>. This
  happens while the first thread is still in the loop, and also after it has left it.
\<close>

theorem start_after_stop_terminates:
  "start 8 (run [Start 7, Stop] Thread_init) = Inl Terminate
   \<and> inLoop (run [Start 7, Stop] Thread_init)
   \<and> \<not> isRunning (run [Start 7, Stop] Thread_init)
   \<and> start 8 (run [Start 7, Stop, LoopStep 0] Thread_init) = Inl Terminate
   \<and> terminated (run [Start 7, Stop, Start 8] Thread_init)"
  by (simp add: op_defs accessor_defs)

section \<open>The accepting flag and the lock\<close>

text \<open>
  Claim C8 says that in every \<^verbatim>\<open>send\<close> variant the test of the accepting flag and the
  enqueue run under the same lock, so that no \<^verbatim>\<open>stop\<close> can come between them. The
  flag is read before the lock is taken. On a started worker the test of \<^verbatim>\<open>send\<close>
  passes; \<^verbatim>\<open>stop\<close> then takes the lock and clears the flag; the locked block of
  \<^verbatim>\<open>send\<close> then enqueues the message, with the flag cleared.
\<close>

theorem send_enqueues_after_stop_between_test_and_lock:
  "getIsAcceptingMessages (run [Start 7] Thread_init)
   \<and> stop (run [Start 7] Thread_init) = Inr (run [Start 7, Stop] Thread_init)
   \<and> \<not> isAcceptingMessages (send_locked (Callable 1 (Returns 0)) (run [Start 7, Stop] Thread_init))
   \<and> messageQueue (send_locked (Callable 1 (Returns 0)) (run [Start 7, Stop] Thread_init))
       = [CallableMessage (Callable 1 (Returns 0))]"
  by (simp add: op_defs accessor_defs)

text \<open>
  Claim C8 as amended. In every \<^verbatim>\<open>send\<close> variant the accepting flag is read before the
  lock is taken and only the enqueue runs under the lock. A call that is not interleaved
  with \<^verbatim>\<open>stop\<close> enqueues when the flag is set and fails after \<^verbatim>\<open>stop\<close>; when
  \<^verbatim>\<open>stop\<close> takes effect between the test and the lock, the locked block of
  \<^verbatim>\<open>send\<close>, \<^verbatim>\<open>sendDelayed\<close> and \<^verbatim>\<open>sendAsync\<close> still enqueues, with the flag cleared.
\<close>

theorem send_check_outside_lock:
  "getIsAcceptingMessages s \<and> stop_virtual s = Inr s1 \<longrightarrow>
     send c s = Inr (send_locked c s)
     \<and> \<not> isAcceptingMessages (send_locked c s1)
     \<and> messageQueue (send_locked c s1) = messageQueue s @ [CallableMessage c]
     \<and> \<not> isAcceptingMessages (fst (sendDelayed_locked c timeout now a s1))
     \<and> delayedQueue (fst (sendDelayed_locked c timeout now a s1)) =
         delayedQueue (fst (sendDelayed_locked c timeout now a s))
     \<and> \<not> isAcceptingMessages (sendAsync_locked tr c p s1)
     \<and> messageQueue (sendAsync_locked tr c p s1) =
         messageQueue s @ [CallableMessageWithPromise tr c p]
     \<and> send c s1 = Inl NotAcceptingMessages"
  by (auto simp: stop_virtual_def stop_def ThisThread_stop_def send_def send_locked_def
        sendDelayed_locked_def sendAsync_locked_def accessor_defs
        split: kind.splits option.splits)

theorem send_check_outside_lock_witness:
  "getIsAcceptingMessages (run [Start 7] Thread_init)
   \<and> stop_virtual (run [Start 7] Thread_init) = Inr (run [Start 7, Stop] Thread_init)
   \<and> messageQueue (send_locked (Callable 1 (Returns 0)) (run [Start 7, Stop] Thread_init))
       = [CallableMessage (Callable 1 (Returns 0))]
   \<and> send (Callable 1 (Returns 0)) (run [Start 7, Stop] Thread_init) = Inl NotAcceptingMessages"
  using send_check_outside_lock [of "run [Start 7] Thread_init" "run [Start 7, Stop] Thread_init"
      "Callable 1 (Returns 0)" 0 0 0 TValue 0]
  by (simp add: op_defs accessor_defs)

section \<open>Cancelled work\<close>

lemma dead_LoopStep:
  assumes "dead l s"
  shows "dead l (fire (LoopStep t) s)"
proof (cases "inLoop s")
  case False
  with assms show ?thesis by (simp add: fire_LoopStep_queues)
next
  case True
  let ?s1 = "enqueueDelayedMessages t s"
  have mq1: "l \<notin> msg_label ` set (messageQueue ?s1)"
  proof
    assume "l \<in> msg_label ` set (messageQueue ?s1)"
    then obtain m where m: "m \<in> set (messageQueue ?s1)" "msg_label m = l" by auto
    from assms have "l \<notin> msg_label ` set (messageQueue s)" by (simp add: dead_def)
    with m have "m \<in> set (List.map_filter (\<lambda>w. if isCancelled w then None else message w)
         (takeWhile (\<lambda>w. time w < t) (delayedQueue s)))"
      by (auto simp: enqueueDelayedMessages_queues)
    then obtain w where w: "w \<in> set (takeWhile (\<lambda>w. time w < t) (delayedQueue s))"
        "\<not> isCancelled w" "message w = Some m"
      using promoted_from_live_wrapper by blast
    from w(1) have "w \<in> set (delayedQueue s)" by (rule set_takeWhileD [THEN conjunct1])
    with assms w m show False by (auto simp: dead_def carries_def)
  qed
  have dq1: "\<forall>w \<in> set (delayedQueue ?s1). carries l w \<longrightarrow> isCancelled w"
    using assms by (auto simp: dead_def enqueueDelayedMessages_queues dest: set_dropWhileD)
  show ?thesis
  proof (cases "isRunning s")
    case running: True
    have "set (take 1 (messageQueue ?s1)) \<subseteq> set (messageQueue ?s1)"
      by (rule set_take_subset)
    moreover have "set (drop 1 (messageQueue ?s1)) \<subseteq> set (messageQueue ?s1)"
      by (rule set_drop_subset)
    ultimately show ?thesis
      using True running assms mq1 dq1
      by (auto simp: dead_def fire_LoopStep_queues runLoop_step_queues runLoop_body_queues)
  next
    case stopped: False
    show ?thesis
      using True stopped assms runLeftovers_loop_sets [of "messageQueue s" s]
      by (auto simp: dead_def fire_LoopStep_queues runLoop_step_queues runLeftovers_def)
  qed
qed

lemma dead_fire:
  assumes "dead l s" and "\<not> submits l e"
  shows "dead l (fire e s)"
proof (cases e)
  case (LoopStep t)
  with assms show ?thesis by (simp only: dead_LoopStep)
next
  case (SendAsync caller tr c)
  with assms sendAsync_queues [of caller tr c s] show ?thesis
    by (auto simp: dead_def submits_def)
next
  case (SendSync caller tr c)
  with assms sendAsync_queues [of caller tr c s] show ?thesis
    by (auto simp: dead_def submits_def sendSync_def)
next
  case (Cancel h)
  with assms show ?thesis
    by (auto simp: dead_def cancel_def carries_def split: option.splits)
qed (use assms in \<open>auto simp: dead_def submits_def carries_def start_virtual_def start_def
       ThisThread_start_def stop_virtual_def stop_def
       ThisThread_stop_def join_def send_def send_locked_def sendDelayed_def
       sendDelayed_locked_def sendAsync_locked_def accessor_defs Let_def
       split: sum.splits option.splits kind.splits if_splits\<close>)

lemma dead_run:
  "dead l s \<Longrightarrow> \<forall>e \<in> set evs. \<not> submits l e \<Longrightarrow> dead l (run evs s)"
  by (induction evs arbitrary: s) (auto simp: dead_fire)

lemma cancel_expired: "isExecuted h s \<Longrightarrow> cancel h s = s"
proof (cases h)
  case None
  then show ?thesis by (simp add: cancel_def)
next
  case (Some a)
  assume "isExecuted h s"
  with Some have "\<forall>w \<in> set (delayedQueue s). addr w \<noteq> a"
    by (auto simp: isExecuted_def lock_weak_def list_ex_iff)
  then have "map (\<lambda>w. if addr w = a then w\<lparr>isCancelled := True\<rparr> else w) (delayedQueue s)
      = delayedQueue s"
    by (simp add: map_idI)
  with Some show ?thesis by (simp add: cancel_def)
qed

lemma cancel_idem: "cancel h (cancel h s) = cancel h s"
  by (cases h) (auto simp: cancel_def)

text \<open>
  Claim C7. Cancelling the handle of a delayed item before the item is promoted
  guarantees that the work never runs: when the work labelled \<open>l\<close> has not run, is not
  in the main queue and is held only by the wrapper of the handle, then after
  \<^verbatim>\<open>cancel\<close> it runs in no continuation that does not submit it again. Cancelling
  after the item has been promoted or run, when the wrapper no longer exists, changes
  nothing (\<^verbatim>\<open>cancel\<close> is \<^verbatim>\<open>noexcept\<close> and has no failure), and cancelling twice is
  cancelling once.
\<close>

theorem cancel_guarantees:
  "(l \<notin> set (executed s) \<and> l \<notin> msg_label ` set (messageQueue s)
      \<and> (\<forall>w \<in> set (delayedQueue s). carries l w \<longrightarrow> addr w = a)
      \<and> (\<forall>e \<in> set evs. \<not> submits l e)
     \<longrightarrow> l \<notin> set (executed (run evs (cancel (Some a) s))))
   \<and> (isExecuted h s \<longrightarrow> cancel h s = s)
   \<and> cancel h (cancel h s) = cancel h s"
proof (intro conjI impI)
  assume h: "l \<notin> set (executed s) \<and> l \<notin> msg_label ` set (messageQueue s)
      \<and> (\<forall>w \<in> set (delayedQueue s). carries l w \<longrightarrow> addr w = a)
      \<and> (\<forall>e \<in> set evs. \<not> submits l e)"
  then have "dead l (cancel (Some a) s)"
    by (auto simp: dead_def cancel_def carries_def)
  with h have "dead l (run evs (cancel (Some a) s))"
    by (simp add: dead_run)
  then show "l \<notin> set (executed (run evs (cancel (Some a) s)))"
    by (simp add: dead_def)
next
  assume "isExecuted h s"
  then show "cancel h s = s" by (rule cancel_expired)
next
  show "cancel h (cancel h s) = cancel h s" by (rule cancel_idem)
qed

theorem cancel_guarantees_witness:
  "1 \<notin> set (executed (run [Start 7, SendDelayed (Callable 1 (Returns 0)) 50 0 4096] Thread_init))
   \<and> \<not> isExecuted (Some 4096)
         (run [Start 7, SendDelayed (Callable 1 (Returns 0)) 50 0 4096] Thread_init)
   \<and> 1 \<notin> set (executed (run [LoopStep 51, Send (Callable 2 (Returns 0)), LoopStep 60, Stop, LoopStep 70]
        (cancel (Some 4096)
           (run [Start 7, SendDelayed (Callable 1 (Returns 0)) 50 0 4096] Thread_init))))
   \<and> executed (run [LoopStep 51, Send (Callable 2 (Returns 0)), LoopStep 60, Stop, LoopStep 70]
        (cancel (Some 4096)
           (run [Start 7, SendDelayed (Callable 1 (Returns 0)) 50 0 4096] Thread_init))) = [2]
   \<and> isExecuted (Some 4096) (run [Start 7] Thread_init)
   \<and> cancel (Some 4096) (run [Start 7] Thread_init) = run [Start 7] Thread_init"
  using cancel_guarantees [of 1
      "run [Start 7, SendDelayed (Callable 1 (Returns 0)) 50 0 4096] Thread_init" 4096
      "[LoopStep 51, Send (Callable 2 (Returns 0)), LoopStep 60, Stop, LoopStep 70]" None]
    cancel_guarantees [of 1 "run [Start 7] Thread_init" 4096 "[]" "Some 4096"]
  by (simp add: op_defs accessor_defs carries_def submits_def)

section \<open>Order of delivery\<close>













lemma run_terminated [simp]: "terminated s \<Longrightarrow> run evs s = s"
  by (cases evs) simp_all


lemma arrivals_terminated [simp]: "terminated s \<Longrightarrow> arrivals evs s = []"
  by (cases evs) simp_all


lemma waiting_simps [simp]:
  "waiting [] = []"
  "waiting (m # ms) = promise_of m @ waiting ms"
  "waiting (ms @ ns) = waiting ms @ waiting ns"
  by (simp_all add: waiting_def)



text \<open>A call touches the shared state of its own promise only.\<close>

lemma set_state_promises:
  "length (promises (snd (set_state p v s))) = length (promises s)"
  "q \<noteq> p \<Longrightarrow> promises (snd (set_state p v s)) ! q = promises s ! q"
  by (simp_all add: set_state_def)




lemma release_messageQueue_update [simp]:
  "promises (release m (s\<lparr>messageQueue := q\<rparr>)) = promises (release m s)"
  by (cases m) (simp_all add: set_state_def)














lemma sends_in_append [simp]:
  "sends_in b (xs @ ys) = sends_in b xs @ sends_in b ys"
  by (induction xs) simp_all





lemma sends_in_none [simp]:
  "sends_in b [Start i] = []" "sends_in b [Stop] = []" "sends_in b [LoopStep t] = []"
  by simp_all





section \<open>Workers without a spawned thread\<close>

lemma fire_ThisThread:
  "kind s = ThisThread \<and> thread s = None \<Longrightarrow>
   kind (fire e s) = ThisThread \<and> thread (fire e s) = None"
proof (cases e)
  case (LoopStep t)
  then show "kind s = ThisThread \<and> thread s = None \<Longrightarrow>
     kind (fire e s) = ThisThread \<and> thread (fire e s) = None"
    by (simp add: fire_LoopStep)
qed (auto simp: start_virtual_def ThisThread_start_def stop_virtual_def
       ThisThread_stop_def join_def send_def send_locked_def sendDelayed_def
       sendDelayed_locked_def sendAsync_locked_def cancel_def accessor_defs Let_def
       split: sum.splits option.splits if_splits)

lemma ThisThread_owns_no_thread:
  "kind s = ThisThread \<and> thread s = None \<Longrightarrow>
   kind (run evs s) = ThisThread \<and> thread (run evs s) = None"
proof (induction evs arbitrary: s)
  case Nil
  then show ?case by simp
next
  case (Cons e evs)
  from Cons.IH [OF fire_ThisThread [OF Cons.prems]] Cons.prems show ?case by simp
qed

lemma fire_before_start:
  "\<not> is_Start e \<Longrightarrow> thread s = None \<Longrightarrow> thread (fire e s) = None"
proof (cases e)
  case (LoopStep t)
  then show "thread s = None \<Longrightarrow> thread (fire e s) = None"
    by (simp add: fire_LoopStep)
qed (auto simp: is_Start_def stop_virtual_def stop_def
       ThisThread_stop_def join_def send_def send_locked_def sendDelayed_def
       sendDelayed_locked_def sendAsync_locked_def cancel_def accessor_defs Let_def
       split: sum.splits option.splits kind.splits if_splits)

lemma Thread_before_start_owns_no_thread:
  "\<forall>e \<in> set evs. \<not> is_Start e \<Longrightarrow> thread s = None \<Longrightarrow> thread (run evs s) = None"
  by (induction evs arbitrary: s) (auto simp: fire_before_start)

lemma actualCall_fresh_promise:
  assumes "p = length (promises s)" and "\<not> (tr = TVoid \<and> raises c)"
  shows "fst (actualCall tr c p (s\<lparr>promises := promises s @ [Pending]\<rparr>)) = None"
    and "future_get p (release (CallableMessageWithPromise tr c p)
           (snd (actualCall tr c p (s\<lparr>promises := promises s @ [Pending]\<rparr>))))
         = Some (satisfied_with tr c)"
proof -
  show "fst (actualCall tr c p (s\<lparr>promises := promises s @ [Pending]\<rparr>)) = None"
    using assms
    by (cases tr; cases "behaviour c")
       (simp_all add: set_state_def invoke_def raises_def nth_append)
  show "future_get p (release (CallableMessageWithPromise tr c p)
           (snd (actualCall tr c p (s\<lparr>promises := promises s @ [Pending]\<rparr>))))
         = Some (satisfied_with tr c)"
    using assms
    by (cases tr; cases "behaviour c")
       (simp_all add: set_state_def invoke_def future_get_def satisfied_with_def raises_def
          nth_append)
qed

lemma sendAsync_inline:
  assumes n: "thread s = None" and acc: "getIsAcceptingMessages s"
  shows "messageQueue (snd (sendAsync caller tr c s)) = messageQueue s"
    and "executed (snd (sendAsync caller tr c s)) = executed s @ [label c]"
    and "\<not> (tr = TVoid \<and> raises c) \<Longrightarrow>
         fst (sendAsync caller tr c s) = Inr (length (promises s))
         \<and> future_get (length (promises s)) (snd (sendAsync caller tr c s))
             = Some (satisfied_with tr c)"
proof -
  let ?p = "length (promises s)"
  let ?s1 = "s\<lparr>promises := promises s @ [Pending]\<rparr>"
  let ?m = "CallableMessageWithPromise tr c ?p"
  have same1: "getIsSameThread caller ?s1"
    using n by (simp add: getIsSameThread_def getId_def)
  have res: "sendAsync caller tr c s =
      (case fst (call ?m ?s1) of None \<Rightarrow> Inr ?p | Some e \<Rightarrow> Inl (Raised e),
       release ?m (snd (call ?m ?s1)))"
    using acc same1
    by (simp add: sendAsync_def Let_def case_prod_unfold split: option.splits)
  show "messageQueue (snd (sendAsync caller tr c s)) = messageQueue s"
    by (simp add: res)
  show "executed (snd (sendAsync caller tr c s)) = executed s @ [label c]"
    by (simp add: res)
  assume q: "\<not> (tr = TVoid \<and> raises c)"
  have f1: "fst (call ?m ?s1) = None"
    using actualCall_fresh_promise(1) [OF refl q, of s] by simp
  have f2: "future_get ?p (release ?m (snd (call ?m ?s1))) = Some (satisfied_with tr c)"
    using actualCall_fresh_promise(2) [OF refl q, of s] by simp
  show "fst (sendAsync caller tr c s) = Inr ?p
         \<and> future_get ?p (snd (sendAsync caller tr c s)) = Some (satisfied_with tr c)"
    unfolding res using f1 f2 by simp
qed

text \<open>
  Claim C10 says that on a worker that holds no spawned thread (a \<^verbatim>\<open>ThisThread\<close> at any
  time, a plain \<^verbatim>\<open>Thread\<close> before \<^verbatim>\<open>start\<close>) \<^verbatim>\<open>sendAsync\<close> runs the work in place and
  returns a future that is already satisfied. \<^verbatim>\<open>sendAsync\<close> tests the accepting flag
  first: on a \<^verbatim>\<open>ThisThread\<close> after \<^verbatim>\<open>stop\<close> the same-thread test still holds for every
  caller, but the call fails with \<open>NotAcceptingMessages\<close>, runs nothing and returns no
  future.
\<close>

theorem sendAsync_after_stop_runs_nothing:
  "thread (run [Start 0, Stop] ThisThread_init) = None
   \<and> getIsSameThread 9 (run [Start 0, Stop] ThisThread_init)
   \<and> sendAsync 9 TValue (Callable 1 (Returns 42)) (run [Start 0, Stop] ThisThread_init)
       = (Inl NotAcceptingMessages, run [Start 0, Stop] ThisThread_init)
   \<and> executed (run [Start 0, Stop] ThisThread_init) = []"
  by (simp add: op_defs accessor_defs)

text \<open>
  Claim C10 as amended. On a worker that holds no spawned thread, \<^verbatim>\<open>getId\<close> is the id
  of the caller, whoever calls, so the same-thread test holds. A \<^verbatim>\<open>sendAsync\<close> that is
  accepted then runs the work in place and enqueues nothing; for work that returns a
  value, and for \<^verbatim>\<open>void\<close> work that returns, it returns a future that already holds the
  result of the work: its value, its completion, or the error it raised. A
  \<^verbatim>\<open>sendAsync\<close> that is not accepted fails with \<open>NotAcceptingMessages\<close> and changes
  nothing.
\<close>

theorem sendAsync_without_spawned_thread_runs_inline:
  "s = run evs ThisThread_init
     \<or> s = run evs Thread_init \<and> list_all (\<lambda>e. \<not> is_Start e) evs
     \<or> thread s = None \<longrightarrow>
   thread s = None
   \<and> getId caller s = Some caller \<and> getIsSameThread caller s
   \<and> (getIsAcceptingMessages s \<longrightarrow>
        messageQueue (snd (sendAsync caller tr c s)) = messageQueue s
        \<and> executed (snd (sendAsync caller tr c s)) = executed s @ [label c]
        \<and> (\<not> (tr = TVoid \<and> raises c) \<longrightarrow>
             fst (sendAsync caller tr c s) = Inr (length (promises s))
             \<and> future_get (length (promises s)) (snd (sendAsync caller tr c s))
                 = Some (satisfied_with tr c)))
   \<and> (\<not> getIsAcceptingMessages s \<longrightarrow>
        sendAsync caller tr c s = (Inl NotAcceptingMessages, s))"
proof
  assume "s = run evs ThisThread_init
     \<or> s = run evs Thread_init \<and> list_all (\<lambda>e. \<not> is_Start e) evs
     \<or> thread s = None"
  then have n: "thread s = None"
  proof (elim disjE conjE)
    assume "s = run evs ThisThread_init"
    then show ?thesis
      using ThisThread_owns_no_thread [of ThisThread_init evs]
      by (simp add: ThisThread_init_def Thread_init_def)
  next
    assume "s = run evs Thread_init" and "list_all (\<lambda>e. \<not> is_Start e) evs"
    then show ?thesis
      using Thread_before_start_owns_no_thread [of evs Thread_init]
      by (simp add: Thread_init_def list_all_iff)
  qed
  from n have "getId caller s = Some caller" and "getIsSameThread caller s"
    by (simp_all add: getIsSameThread_def getId_def)
  moreover have "\<not> getIsAcceptingMessages s \<longrightarrow>
        sendAsync caller tr c s = (Inl NotAcceptingMessages, s)"
    by (simp add: sendAsync_def)
  ultimately show "thread s = None
   \<and> getId caller s = Some caller \<and> getIsSameThread caller s
   \<and> (getIsAcceptingMessages s \<longrightarrow>
        messageQueue (snd (sendAsync caller tr c s)) = messageQueue s
        \<and> executed (snd (sendAsync caller tr c s)) = executed s @ [label c]
        \<and> (\<not> (tr = TVoid \<and> raises c) \<longrightarrow>
             fst (sendAsync caller tr c s) = Inr (length (promises s))
             \<and> future_get (length (promises s)) (snd (sendAsync caller tr c s))
                 = Some (satisfied_with tr c)))
   \<and> (\<not> getIsAcceptingMessages s \<longrightarrow>
        sendAsync caller tr c s = (Inl NotAcceptingMessages, s))"
    using n sendAsync_inline [OF n, where caller = caller and tr = tr and c = c]
    by blast
qed

theorem sendAsync_without_spawned_thread_runs_inline_witness:
  "thread (run [Start 0, Send (Callable 5 (Returns 0))] ThisThread_init) = None
   \<and> inLoop (run [Start 0, Send (Callable 5 (Returns 0))] ThisThread_init)
   \<and> getIsSameThread 9 (run [Start 0, Send (Callable 5 (Returns 0))] ThisThread_init)
   \<and> getIsAcceptingMessages (run [Start 0, Send (Callable 5 (Returns 0))] ThisThread_init)
   \<and> fst (sendAsync 9 TValue (Callable 1 (Raises ''boom''))
         (run [Start 0, Send (Callable 5 (Returns 0))] ThisThread_init)) = Inr 0
   \<and> future_get 0 (snd (sendAsync 9 TValue (Callable 1 (Raises ''boom''))
         (run [Start 0, Send (Callable 5 (Returns 0))] ThisThread_init))) = Some (Inl ''boom'')
   \<and> messageQueue (snd (sendAsync 9 TValue (Callable 1 (Raises ''boom''))
         (run [Start 0, Send (Callable 5 (Returns 0))] ThisThread_init)))
       = [CallableMessage (Callable 5 (Returns 0))]
   \<and> future_get 0 (snd (sendAsync 9 TVoid (Callable 2 (Returns 0)) Thread_init)) = Some (Inr None)
   \<and> executed (snd (sendAsync 9 TVoid (Callable 2 (Returns 0)) Thread_init)) = [2]"
  using sendAsync_without_spawned_thread_runs_inline
     [of "run [Start 0, Send (Callable 5 (Returns 0))] ThisThread_init"
         "[Start 0, Send (Callable 5 (Returns 0))]" 9 TValue "Callable 1 (Raises ''boom'')"]
    sendAsync_without_spawned_thread_runs_inline
     [of Thread_init "[]" 9 TVoid "Callable 2 (Returns 0)"]
  by (simp add: op_defs accessor_defs raises_def satisfied_with_def)

end
